theory Spec2Isabelle
  imports Main "HOL-Library.Sublist"
begin

section \<open>Python text primitives used by \<open>ai_agent/rag_logic.py\<close>\<close>

text \<open>
  A Python \<open>str\<close> is modelled as a \<open>string\<close> whose characters are the code points
  U+0000 to U+00FF. On that range \<open>str.lower\<close> maps one character to one character, the
  class \<open>\d\<close> of the \<open>re\<close> module is \<open>0-9\<close>, and \<open>\w\<close> is the alphanumeric code points
  together with the underscore.
\<close>

definition is_digit :: "char \<Rightarrow> bool" where
  "is_digit c = (let n = (of_char c :: nat) in 48 \<le> n \<and> n \<le> 57)"

definition is_word_char :: "char \<Rightarrow> bool" where
  "is_word_char c =
     (let n = (of_char c :: nat) in
        (48 \<le> n \<and> n \<le> 57) \<or> (65 \<le> n \<and> n \<le> 90) \<or> n = 95 \<or> (97 \<le> n \<and> n \<le> 122) \<or>
        n = 170 \<or> n = 178 \<or> n = 179 \<or> n = 181 \<or> n = 185 \<or> n = 186 \<or>
        (188 \<le> n \<and> n \<le> 190) \<or> (192 \<le> n \<and> n \<le> 214) \<or> (216 \<le> n \<and> n \<le> 246) \<or>
        (248 \<le> n \<and> n \<le> 255))"

definition lower_char :: "char \<Rightarrow> char" where
  "lower_char c =
     (let n = (of_char c :: nat) in
        if (65 \<le> n \<and> n \<le> 90) \<or> (192 \<le> n \<and> n \<le> 222 \<and> n \<noteq> 215)
        then char_of (n + 32) else c)"

text \<open>\<open>s.lower()\<close>\<close>

definition lower :: "string \<Rightarrow> string" where
  "lower s = map lower_char s"

text \<open>
  \<open>re.findall(r'\b\w+\b', s)\<close>: the maximal runs of word characters of \<open>s\<close>, from left
  to right. The first argument is the run being read.
\<close>

fun scan_words :: "string \<Rightarrow> string \<Rightarrow> string list" where
  "scan_words cur [] = (if cur = [] then [] else [cur])"
| "scan_words cur (c # cs) =
     (if is_word_char c then scan_words (cur @ [c]) cs
      else (if cur = [] then [] else [cur]) @ scan_words [] cs)"

definition findall_words :: "string \<Rightarrow> string list" where
  "findall_words s = scan_words [] s"

text \<open>\<open>sep.join(parts)\<close>\<close>

fun join :: "string \<Rightarrow> string list \<Rightarrow> string" where
  "join sep [] = []"
| "join sep [x] = x"
| "join sep (x # y # ys) = x @ sep @ join sep (y # ys)"

section \<open>Product records\<close>

text \<open>
  A product is a dict with the keys \<open>name\<close>, \<open>description\<close>, \<open>price\<close>, \<open>rating\<close> and
  \<open>availability\<close>. A key can be missing, or hold \<open>None\<close> (what \<open>clean_text\<close> of the scraper
  returns for an element it did not find), or hold a \<open>str\<close>.
\<close>

datatype field = Missing | PyNone | Str string

record product =
  name :: field
  description :: field
  price :: field
  rating :: field
  availability :: field

text \<open>\<open>product.get(key, '')\<close>: the result is \<open>None\<close> (Python's \<open>None\<close>) or a \<open>str\<close>.\<close>

fun get_or_empty :: "field \<Rightarrow> string option" where
  "get_or_empty Missing = Some []"
| "get_or_empty PyNone = None"
| "get_or_empty (Str s) = Some s"

text \<open>\<open>filter(None, text_fields)\<close> keeps the truthy entries: the non-empty strings.\<close>

fun filter_truthy :: "string option list \<Rightarrow> string list" where
  "filter_truthy [] = []"
| "filter_truthy (None # vs) = filter_truthy vs"
| "filter_truthy (Some s # vs) = (if s = [] then filter_truthy vs else s # filter_truthy vs)"

definition combined_text :: "product \<Rightarrow> string" where
  "combined_text p =
     lower (join '' '' (filter_truthy
       [get_or_empty (name p), get_or_empty (description p), get_or_empty (price p),
        get_or_empty (rating p), get_or_empty (availability p)]))"

section \<open>\<open>SimpleRAG.extract_keywords\<close>\<close>

type_synonym keyword_index = "string \<rightharpoonup> nat list"

text \<open>The inner loop \<open>for word in words\<close> at record position \<open>i\<close>.\<close>

fun index_words :: "nat \<Rightarrow> string list \<Rightarrow> keyword_index \<Rightarrow> keyword_index" where
  "index_words i [] kw = kw"
| "index_words i (w # ws) kw =
     index_words i ws
       (if length w > 2
        then kw(w \<mapsto> (case kw w of None \<Rightarrow> [] | Some ps \<Rightarrow> ps) @ [i])
        else kw)"

text \<open>The outer loop \<open>for i, product in enumerate(self.products)\<close>, from position \<open>i\<close> on.\<close>

fun index_products :: "nat \<Rightarrow> product list \<Rightarrow> keyword_index \<Rightarrow> keyword_index" where
  "index_products i [] kw = kw"
| "index_products i (p # ps) kw =
     index_products (Suc i) ps (index_words i (findall_words (combined_text p)) kw)"

definition extract_keywords :: "product list \<Rightarrow> keyword_index" where
  "extract_keywords products = index_products 0 products Map.empty"

section \<open>\<open>SimpleRAG\<close>: construction and retrieval\<close>

record simple_rag =
  products :: "product list"
  "keywords" :: keyword_index

text \<open>\<open>SimpleRAG.__init__\<close>\<close>

definition SimpleRAG :: "product list \<Rightarrow> simple_rag" where
  "SimpleRAG ps = \<lparr>products = ps, keywords = extract_keywords ps\<rparr>"

datatype py_error = IndexError | AttributeError | TypeError

text \<open>
  A \<open>Counter\<close> is a dict, which keeps its keys in the order of their first insertion: a
  list of (record position, count) pairs with distinct positions. \<open>counter_incr k c\<close> is
  \<open>c[k] += 1\<close>; \<open>counter_get c k\<close> is \<open>c[k]\<close>, which is 0 for a key that was never
  counted.
\<close>

type_synonym counter = "(nat \<times> nat) list"

fun counter_incr :: "nat \<Rightarrow> counter \<Rightarrow> counter" where
  "counter_incr k [] = [(k, 1)]"
| "counter_incr k ((j, n) # c) =
     (if j = k then (j, n + 1) # c else (j, n) # counter_incr k c)"

fun counter_get :: "counter \<Rightarrow> nat \<Rightarrow> nat" where
  "counter_get [] k = 0"
| "counter_get ((j, n) # c) k = (if j = k then n else counter_get c k)"

text \<open>The inner loop \<open>for product_idx in self.keywords[word]\<close>.\<close>

fun score_postings :: "nat list \<Rightarrow> counter \<Rightarrow> counter" where
  "score_postings [] c = c"
| "score_postings (i # postings) c = score_postings postings (counter_incr i c)"

text \<open>The outer loop \<open>for word in query_words\<close>.\<close>

fun score_words :: "keyword_index \<Rightarrow> string list \<Rightarrow> counter \<Rightarrow> counter" where
  "score_words kw [] c = c"
| "score_words kw (w # ws) c =
     score_words kw ws (case kw w of None \<Rightarrow> c | Some postings \<Rightarrow> score_postings postings c)"

definition query_words :: "string \<Rightarrow> string list" where
  "query_words query = findall_words (lower query)"

definition product_scores :: "simple_rag \<Rightarrow> string \<Rightarrow> counter" where
  "product_scores self query = score_words (keywords self) (query_words query) []"

text \<open>
  \<open>Counter.most_common(n)\<close> is \<open>heapq.nlargest(n, self.items(), key=itemgetter(1))\<close>: the
  empty list for \<open>n \<le> 0\<close>, and otherwise the first \<open>n\<close> items of
  \<open>sorted(self.items(), key=itemgetter(1), reverse=True)\<close>, a stable sort by descending
  count (items of equal count keep the order they have in the dict).
\<close>

definition most_common :: "int \<Rightarrow> counter \<Rightarrow> counter" where
  "most_common n c = take (nat n) (sort_key (\<lambda>(k, cnt). - int cnt) c)"

text \<open>The pairs \<open>product_scores.most_common(top_k)\<close> the result is built from.\<close>

definition ranking :: "simple_rag \<Rightarrow> string \<Rightarrow> int \<Rightarrow> counter" where
  "ranking self query top_k = most_common top_k (product_scores self query)"

text \<open>
  An element of the returned list: a product dict, with the key \<open>relevance_score\<close> when
  the element is an annotated copy.
\<close>

record scored_product =
  item :: product
  relevance_score :: "nat option"

definition unscored :: "product \<Rightarrow> scored_product" where
  "unscored p = \<lparr>item = p, relevance_score = None\<rparr>"

text \<open>
  The loop that fills \<open>top_products\<close>; \<open>self.products[product_idx]\<close> raises
  \<open>IndexError\<close> for a position outside the list.
\<close>

fun top_products :: "product list \<Rightarrow> counter \<Rightarrow> py_error + scored_product list" where
  "top_products ps [] = Inr []"
| "top_products ps ((product_idx, score) # rest) =
     (if product_idx < length ps
      then (case top_products ps rest of
              Inl e \<Rightarrow> Inl e
            | Inr tops \<Rightarrow> Inr (\<lparr>item = ps ! product_idx, relevance_score = Some score\<rparr> # tops))
      else Inl IndexError)"

text \<open>The slice \<open>xs[:k]\<close>; a negative \<open>k\<close> counts from the end of the list.\<close>

definition slice_to :: "'a list \<Rightarrow> int \<Rightarrow> 'a list" where
  "slice_to xs k = (if 0 \<le> k then take (nat k) xs else take (nat (int (length xs) + k)) xs)"

definition retrieve_relevant_products ::
    "simple_rag \<Rightarrow> string \<Rightarrow> int \<Rightarrow> py_error + scored_product list" where
  "retrieve_relevant_products self query top_k =
     (case top_products (products self) (ranking self query top_k) of
        Inl e \<Rightarrow> Inl e
      | Inr tops \<Rightarrow>
          if tops = [] then Inr (map unscored (slice_to (products self) top_k))
          else Inr tops)"

definition simple_retrieve :: "product list \<Rightarrow> string \<Rightarrow> py_error + scored_product list" where
  "simple_retrieve ps user_query =
     (if ps = [] then Inr [] else retrieve_relevant_products (SimpleRAG ps) user_query 5)"

section \<open>\<open>SimpleRAG.filter_by_criteria\<close>\<close>

text \<open>
  The dicts \<open>criteria\<close> and \<open>intent\<close> share their keys; a key that is not in the dict is
  \<open>None\<close> here. The bounds are numbers of any linearly ordered type \<open>'n\<close>.
\<close>

datatype sort_order = price_asc | price_desc | rating_desc | rating_asc

record 'n criteria =
  sort_by :: "sort_order option"
  min_price :: "'n option"
  max_price :: "'n option"
  min_rating :: "'n option"
  available_only :: "bool option"

definition no_criteria :: "'n criteria" where
  "no_criteria = \<lparr>sort_by = None, min_price = None, max_price = None, min_rating = None,
     available_only = None\<rparr>"

text \<open>
  \<open>re.search(r'[\d,]+\.?\d*', s)\<close> and \<open>re.search(r'(\d+\.?\d*)', s)\<close>, followed by
  \<open>.group()\<close>: the leftmost character of the first class (\<open>head\<close>) starts the match, which
  takes the whole run of that class, then a dot if one follows, then the digits after
  it. \<open>None\<close> when no character of \<open>s\<close> is in the class.
\<close>

fun number_at :: "(char \<Rightarrow> bool) \<Rightarrow> string \<Rightarrow> string" where
  "number_at head s =
     (let run = takeWhile head s; rest = dropWhile head s
      in case rest of
           [] \<Rightarrow> run
         | c # rest' \<Rightarrow> if c = CHR ''.'' then run @ [c] @ takeWhile is_digit rest' else run)"

fun search_number :: "(char \<Rightarrow> bool) \<Rightarrow> string \<Rightarrow> string option" where
  "search_number head [] = None"
| "search_number head (c # cs) =
     (if head c then Some (number_at head (c # cs)) else search_number head cs)"

definition digit_or_comma :: "char \<Rightarrow> bool" where
  "digit_or_comma c = (is_digit c \<or> c = CHR '','')"

text \<open>\<open>price_text.replace(',', '')\<close>\<close>

definition strip_commas :: "string \<Rightarrow> string" where
  "strip_commas s = filter (\<lambda>c. c \<noteq> CHR '','') s"

text \<open>\<open>needle in haystack\<close> for two strings is \<^const>\<open>sublist\<close>.\<close>

text \<open>
  The three blocks of the loop body update \<open>matches_criteria\<close>. Python's \<open>float\<close> is the
  parameter \<open>to_float\<close>: it is applied to a matched text only, which is digits, then
  possibly a dot and digits, so that \<open>float\<close> does not raise; its values and the bounds
  are compared in the linear order of \<open>'n\<close>. A field that holds \<open>None\<close> makes
  \<open>price_text.replace\<close> and \<open>.lower()\<close> raise \<open>AttributeError\<close> and \<open>re.search\<close> raise
  \<open>TypeError\<close>.
\<close>

definition price_filtering ::
    "(string \<Rightarrow> 'n::linorder) \<Rightarrow> 'n criteria \<Rightarrow> product \<Rightarrow> bool \<Rightarrow> py_error + bool" where
  "price_filtering to_float criteria p matches_criteria =
     (if min_price criteria \<noteq> None \<or> max_price criteria \<noteq> None then
        (case get_or_empty (price p) of
           None \<Rightarrow> Inl AttributeError
         | Some price_text \<Rightarrow>
             (case search_number digit_or_comma (strip_commas price_text) of
                Some price_match \<Rightarrow>
                  (let pr = to_float price_match;
                       m1 = (case min_price criteria of
                               Some lo \<Rightarrow> if pr < lo then False else matches_criteria
                             | None \<Rightarrow> matches_criteria);
                       m2 = (case max_price criteria of
                               Some hi \<Rightarrow> if pr > hi then False else m1
                             | None \<Rightarrow> m1)
                   in Inr m2)
              | None \<Rightarrow> Inr False))
      else Inr matches_criteria)"

definition rating_filtering ::
    "(string \<Rightarrow> 'n::linorder) \<Rightarrow> 'n criteria \<Rightarrow> product \<Rightarrow> bool \<Rightarrow> py_error + bool" where
  "rating_filtering to_float criteria p matches_criteria =
     (case min_rating criteria of
        Some lo \<Rightarrow>
          (case get_or_empty (rating p) of
             None \<Rightarrow> Inl TypeError
           | Some rating_text \<Rightarrow>
               (case search_number is_digit rating_text of
                  Some rating_match \<Rightarrow>
                    Inr (if to_float rating_match < lo then False else matches_criteria)
                | None \<Rightarrow> Inr False))
      | None \<Rightarrow> Inr matches_criteria)"

definition availability_filtering ::
    "'n criteria \<Rightarrow> product \<Rightarrow> bool \<Rightarrow> py_error + bool" where
  "availability_filtering criteria p matches_criteria =
     (if available_only criteria = Some True then
        (case get_or_empty (availability p) of
           None \<Rightarrow> Inl AttributeError
         | Some a \<Rightarrow>
             Inr (if sublist ''out of stock'' (lower a) \<or> sublist ''unavailable'' (lower a)
                  then False else matches_criteria))
      else Inr matches_criteria)"

text \<open>The loop body for one product: the final value of \<open>matches_criteria\<close>, or the error.\<close>

definition matches :: "(string \<Rightarrow> 'n::linorder) \<Rightarrow> 'n criteria \<Rightarrow> product \<Rightarrow> py_error + bool" where
  "matches to_float criteria p =
     (case price_filtering to_float criteria p True of
        Inl e \<Rightarrow> Inl e
      | Inr m1 \<Rightarrow>
          (case rating_filtering to_float criteria p m1 of
             Inl e \<Rightarrow> Inl e
           | Inr m2 \<Rightarrow> availability_filtering criteria p m2))"

text \<open>The loop \<open>for product in self.products\<close>, with \<open>filtered_products\<close> so far.\<close>

fun filter_loop ::
    "(string \<Rightarrow> 'n::linorder) \<Rightarrow> 'n criteria \<Rightarrow> product list \<Rightarrow> product list
      \<Rightarrow> py_error + product list" where
  "filter_loop to_float criteria [] filtered_products = Inr filtered_products"
| "filter_loop to_float criteria (p # ps) filtered_products =
     (case matches to_float criteria p of
        Inl e \<Rightarrow> Inl e
      | Inr m \<Rightarrow>
          filter_loop to_float criteria ps
            (if m then filtered_products @ [p] else filtered_products))"

definition filter_by_criteria ::
    "(string \<Rightarrow> 'n::linorder) \<Rightarrow> simple_rag \<Rightarrow> 'n criteria \<Rightarrow> py_error + product list" where
  "filter_by_criteria to_float self criteria =
     filter_loop to_float criteria (products self) []"

section \<open>\<open>analyze_query_intent\<close>\<close>

text \<open>\<open>any(word in query_lower for word in phrases)\<close>\<close>

definition any_in :: "string list \<Rightarrow> string \<Rightarrow> bool" where
  "any_in phrases query_lower = list_ex (\<lambda>word. sublist word query_lower) phrases"

text \<open>
  \<open>re.search(kw + r'\$?(\d+)', s)\<close> followed by \<open>.group(1)\<close>, for a literal \<open>kw\<close>:
  \<open>amount_at\<close> is the match that starts at the first character of \<open>s\<close>.
\<close>

definition amount_at :: "string \<Rightarrow> string \<Rightarrow> string option" where
  "amount_at kw s =
     (if prefix kw s then
        (let r = drop (length kw) s;
             r' = (case r of [] \<Rightarrow> r | c # t \<Rightarrow> if c = CHR ''$'' then t else r);
             ds = takeWhile is_digit r'
         in if ds = [] then None else Some ds)
      else None)"

fun search_amount :: "string \<Rightarrow> string \<Rightarrow> string option" where
  "search_amount kw [] = amount_at kw []"
| "search_amount kw (c # cs) =
     (case amount_at kw (c # cs) of Some g \<Rightarrow> Some g | None \<Rightarrow> search_amount kw cs)"

text \<open>The phrase lists of the five tests.\<close>

definition cheap_phrases :: "string list" where
  "cheap_phrases = [''cheap'', ''cheapest'', ''lowest price'', ''budget'']"

definition expensive_phrases :: "string list" where
  "expensive_phrases = [''expensive'', ''highest price'', ''premium'']"

definition best_phrases :: "string list" where
  "best_phrases = [''best'', ''highest rated'', ''top rated'', ''best rating'']"

definition worst_phrases :: "string list" where
  "worst_phrases = [''worst'', ''lowest rated'', ''poor rating'']"

definition available_phrases :: "string list" where
  "available_phrases = [''available'', ''in stock'', ''buy now'']"

text \<open>The \<open>if\<close>/\<open>elif\<close> on price words, the one on rating words, the availability test.\<close>

definition sort_by_price :: "string \<Rightarrow> 'n criteria \<Rightarrow> 'n criteria" where
  "sort_by_price query_lower intent =
     (if any_in cheap_phrases query_lower then intent\<lparr>sort_by := Some price_asc\<rparr>
      else if any_in expensive_phrases query_lower then intent\<lparr>sort_by := Some price_desc\<rparr>
      else intent)"

definition sort_by_rating :: "string \<Rightarrow> 'n criteria \<Rightarrow> 'n criteria" where
  "sort_by_rating query_lower intent =
     (if any_in best_phrases query_lower then intent\<lparr>sort_by := Some rating_desc\<rparr>
      else if any_in worst_phrases query_lower then intent\<lparr>sort_by := Some rating_asc\<rparr>
      else intent)"

definition availability_intent :: "string \<Rightarrow> 'n criteria \<Rightarrow> 'n criteria" where
  "availability_intent query_lower intent =
     (if any_in available_phrases query_lower then intent\<lparr>available_only := Some True\<rparr>
      else intent)"

text \<open>The two price patterns; the amount is converted by \<open>float\<close>.\<close>

definition price_range_intent ::
    "(string \<Rightarrow> 'n) \<Rightarrow> string \<Rightarrow> 'n criteria \<Rightarrow> 'n criteria" where
  "price_range_intent to_float query_lower intent =
     (let i1 = (case search_amount ''under '' query_lower of
                  Some g \<Rightarrow> intent\<lparr>max_price := Some (to_float g)\<rparr>
                | None \<Rightarrow> intent)
      in case search_amount ''over '' query_lower of
           Some g \<Rightarrow> i1\<lparr>min_price := Some (to_float g)\<rparr>
         | None \<Rightarrow> i1)"

definition analyze_query_intent :: "(string \<Rightarrow> 'n) \<Rightarrow> string \<Rightarrow> 'n criteria" where
  "analyze_query_intent to_float query =
     (let query_lower = lower query
      in price_range_intent to_float query_lower
           (availability_intent query_lower
              (sort_by_rating query_lower
                 (sort_by_price query_lower no_criteria))))"

section \<open>Notions used to state the properties\<close>

text \<open>\<open>self.keywords[w]\<close> as the scoring loop reads it: empty when \<open>w\<close> is not a key.\<close>

definition postings :: "keyword_index \<Rightarrow> string \<Rightarrow> nat list" where
  "postings kw w = (case kw w of None \<Rightarrow> [] | Some ps \<Rightarrow> ps)"

text \<open>The words of a product that \<open>extract_keywords\<close> stores: those longer than 2.\<close>

definition indexed_words :: "product \<Rightarrow> string list" where
  "indexed_words p = filter (\<lambda>w. length w > 2) (findall_words (combined_text p))"

text \<open>
  The record positions in the order the scoring loops visit them: the query's words from
  left to right, the postings list of each from front to back.
\<close>

definition encounters :: "keyword_index \<Rightarrow> string list \<Rightarrow> nat list" where
  "encounters kw ws = concat (map (postings kw) ws)"

text \<open>The index of the first occurrence of \<open>x\<close> in \<open>xs\<close> (\<open>length xs\<close> when there is none).\<close>

definition first_index :: "'a list \<Rightarrow> 'a \<Rightarrow> nat" where
  "first_index xs x = length (takeWhile (\<lambda>y. y \<noteq> x) xs)"

text \<open>
  A counter lists the positions visited in \<open>E\<close>, each once, in the order of their first
  visit.
\<close>

definition in_visit_order :: "nat list \<Rightarrow> counter \<Rightarrow> bool" where
  "in_visit_order E c \<longleftrightarrow>
     distinct (map fst c) \<and> fst ` set c = set E \<and>
     sorted_wrt (\<lambda>a b. first_index E a < first_index E b) (map fst c)"

text \<open>
  One bound of the criteria is tightened: a lower bound is raised, the upper bound is
  lowered (a bound that was absent counts as the loosest), or \<open>available_only\<close> is set.
\<close>

inductive tightens :: "'n::linorder criteria \<Rightarrow> 'n criteria \<Rightarrow> bool" where
  raise_min_price:
    "(\<forall>lo. min_price c = Some lo \<longrightarrow> lo \<le> lo') \<Longrightarrow> tightens c (c\<lparr>min_price := Some lo'\<rparr>)"
| lower_max_price:
    "(\<forall>hi. max_price c = Some hi \<longrightarrow> hi' \<le> hi) \<Longrightarrow> tightens c (c\<lparr>max_price := Some hi'\<rparr>)"
| raise_min_rating:
    "(\<forall>lo. min_rating c = Some lo \<longrightarrow> lo \<le> lo') \<Longrightarrow> tightens c (c\<lparr>min_rating := Some lo'\<rparr>)"
| set_available_only:
    "tightens c (c\<lparr>available_only := Some True\<rparr>)"

text \<open>
  A conversion for the examples: the value of the digits before the dot, as a natural
  number. The theorems hold for every conversion, Python's \<open>float\<close> among them.
\<close>

definition whole_part :: "string \<Rightarrow> nat" where
  "whole_part s = foldl (\<lambda>n c. 10 * n + (of_char c - 48)) 0 (takeWhile is_digit s)"

section \<open>Example records\<close>

text \<open>The two records of the specification's examples.\<close>

definition widget :: product where
  "widget = \<lparr>name = Str ''Widget'', description = Missing, price = Str ''$10.00'',
     rating = Str ''4.5 out of 5'', availability = Str ''In Stock''\<rparr>"

definition gadget :: product where
  "gadget = \<lparr>name = Str ''Gadget'', description = Missing, price = Str ''$50.00'',
     rating = Str ''3.0 out of 5'', availability = Str ''Out of Stock''\<rparr>"

text \<open>A record whose name repeats a word.\<close>

definition twice :: product where
  "twice = \<lparr>name = Str ''widget widget'', description = Missing, price = Missing,
     rating = Missing, availability = Missing\<rparr>"

text \<open>
  What \<open>ProductScraper.extract_product_info\<close> returns for a card in which only a title
  was found: all five keys, \<open>None\<close> for the elements not found.
\<close>

definition title_only :: product where
  "title_only = \<lparr>name = Str ''Widget'', description = PyNone, price = PyNone,
     rating = PyNone, availability = PyNone\<rparr>"

text \<open>A record with a price text that holds no number, otherwise as scraped.\<close>

definition price_on_request :: product where
  "price_on_request = \<lparr>name = Str ''Widget'', description = PyNone,
     price = Str ''Price on request'', rating = PyNone, availability = PyNone\<rparr>"

section \<open>The inverted index\<close>

lemma postings_upd:
  "postings (kw(v \<mapsto> ps)) w = (if v = w then ps else postings kw w)"
  by (simp add: postings_def)

lemma index_words_Cons:
  "index_words i (v # ws) kw =
     index_words i ws (if length v > 2 then kw(v \<mapsto> postings kw v @ [i]) else kw)"
  by (simp add: postings_def)

lemma postings_index_words:
  "postings (index_words i ws kw) w =
     postings kw w @ replicate (count_list (filter (\<lambda>v. length v > 2) ws) w) i"
proof (induction ws arbitrary: kw)
  case Nil
  then show ?case by simp
next
  case (Cons v ws)
  show ?case
    unfolding index_words_Cons Cons.IH
    by (simp add: postings_upd replicate_append_same)
qed

lemma postings_index_products:
  "postings (index_products i ps kw) w =
     postings kw w @
     concat (map (\<lambda>j. replicate (count_list (indexed_words (ps ! j)) w) (i + j)) [0..<length ps])"
proof (induction ps arbitrary: i kw)
  case Nil
  then show ?case by simp
next
  case (Cons p ps)
  have "[0..<length (p # ps)] = 0 # map Suc [0..<length ps]"
    by (simp add: upt_conv_Cons map_Suc_upt del: upt_Suc)
  then have shift: "map (\<lambda>j. replicate (count_list (indexed_words ((p # ps) ! j)) w) (i + j)) [0..<length (p # ps)]
      = replicate (count_list (indexed_words p) w) i #
        map (\<lambda>j. replicate (count_list (indexed_words (ps ! j)) w) (Suc i + j)) [0..<length ps]"
    by (simp add: comp_def del: upt_Suc)
  show ?case
    unfolding index_products.simps Cons.IH postings_index_words shift
    by (simp add: indexed_words_def)
qed

lemma postings_extract_keywords:
  "postings (extract_keywords ps) w =
     concat (map (\<lambda>j. replicate (count_list (indexed_words (ps ! j)) w) j) [0..<length ps])"
  unfolding extract_keywords_def postings_index_products
  by (simp add: postings_def)

lemma set_postings_extract_keywords:
  "i \<in> set (postings (extract_keywords ps) w) \<Longrightarrow> i < length ps"
  by (auto simp: postings_extract_keywords)

lemma count_list_replicate_if:
  "count_list (replicate n j) i = (if i = j then n else 0)"
  by (induction n) auto

lemma count_list_concat_replicate:
  "distinct js \<Longrightarrow> count_list (concat (map (\<lambda>j. replicate (f j) j) js)) i = (if i \<in> set js then f i else 0)"
  by (induction js) (auto simp: count_list_replicate_if)

lemma count_postings_extract_keywords:
  "count_list (postings (extract_keywords ps) w) i =
     (if i < length ps then count_list (indexed_words (ps ! i)) w else 0)"
  unfolding postings_extract_keywords
  by (simp add: count_list_concat_replicate)

section \<open>The counter of scores\<close>

lemma counter_get_incr:
  "counter_get (counter_incr k c) p = counter_get c p + (if p = k then 1 else 0)"
  by (induction c) auto

lemma counter_get_score_postings:
  "counter_get (score_postings ps c) p = counter_get c p + count_list ps p"
  by (induction ps arbitrary: c) (auto simp: counter_get_incr)

lemma score_words_Cons:
  "score_words kw (w # ws) c = score_words kw ws (score_postings (postings kw w) c)"
  by (simp add: postings_def split: option.splits)

lemma counter_get_score_words:
  "counter_get (score_words kw ws c) p =
     counter_get c p + (\<Sum>w\<leftarrow>ws. count_list (postings kw w) p)"
proof (induction ws arbitrary: c)
  case Nil
  then show ?case by simp
next
  case (Cons w ws)
  show ?case
    unfolding score_words_Cons Cons.IH counter_get_score_postings
    by simp
qed

lemma keys_counter_incr:
  "map fst (counter_incr k c) = (if k \<in> fst ` set c then map fst c else map fst c @ [k])"
proof (induction c)
  case Nil
  then show ?case by simp
next
  case (Cons jn c)
  obtain j n where jn: "jn = (j, n)" by (cases jn)
  show ?case
  proof (cases "j = k")
    case True
    then show ?thesis using jn by simp
  next
    case False
    then show ?thesis using jn Cons.IH by simp
  qed
qed

lemma first_index_append:
  "x \<in> set xs \<Longrightarrow> first_index (xs @ ys) x = first_index xs x"
  unfolding first_index_def by (subst takeWhile_append1[where x = x]) auto

lemma first_index_less:
  "x \<in> set xs \<Longrightarrow> first_index xs x < length xs"
  unfolding first_index_def by (induction xs) auto

lemma first_index_fresh:
  "x \<notin> set xs \<Longrightarrow> first_index (xs @ x # ys) x = length xs"
  unfolding first_index_def by (subst takeWhile_append2) auto

text \<open>The keys of the counter are the visited positions, in the order of their first visit.\<close>

lemma sorted_first_index_snoc:
  assumes "sorted_wrt (\<lambda>a b. first_index E a < first_index E b) ks" and "set ks \<subseteq> set E"
  shows "sorted_wrt (\<lambda>a b. first_index (E @ [x]) a < first_index (E @ [x]) b) ks"
proof (rule sorted_wrt_mono_rel[OF _ assms(1)])
  fix a b assume "a \<in> set ks" and "b \<in> set ks" and less: "first_index E a < first_index E b"
  then have "a \<in> set E" and "b \<in> set E" using assms(2) by auto
  then show "first_index (E @ [x]) a < first_index (E @ [x]) b"
    using less by (simp add: first_index_append)
qed

lemma visit_one_aux:
  assumes d: "distinct (map fst c)" and s: "fst ` set c = set E"
    and o: "sorted_wrt (\<lambda>a b. first_index E a < first_index E b) (map fst c)"
  shows "distinct (map fst (counter_incr x c)) \<and> fst ` set (counter_incr x c) = set (E @ [x]) \<and>
    sorted_wrt (\<lambda>a b. first_index (E @ [x]) a < first_index (E @ [x]) b) (map fst (counter_incr x c))"
proof -
  have sub: "set (map fst c) \<subseteq> set E" using s by simp
  have old: "sorted_wrt (\<lambda>a b. first_index (E @ [x]) a < first_index (E @ [x]) b) (map fst c)"
    by (rule sorted_first_index_snoc[OF o sub])
  have img: "fst ` set (counter_incr x c) = set (map fst (counter_incr x c))" by simp
  show ?thesis
  proof (cases "x \<in> set E")
    case True
    then have keys: "map fst (counter_incr x c) = map fst c"
      using s by (simp add: keys_counter_incr)
    have "set (map fst c) = set (E @ [x])" using s True by auto
    then show ?thesis unfolding img keys using d old by simp
  next
    case False
    then have keys: "map fst (counter_incr x c) = map fst c @ [x]"
      using s by (simp add: keys_counter_incr)
    have new: "\<forall>a \<in> set (map fst c). first_index (E @ [x]) a < first_index (E @ [x]) x"
    proof
      fix a assume "a \<in> set (map fst c)"
      then have "a \<in> set E" using sub by auto
      then show "first_index (E @ [x]) a < first_index (E @ [x]) x"
        using False by (simp add: first_index_append first_index_fresh first_index_less)
    qed
    have fresh: "x \<notin> set (map fst c)" using False s by simp
    have "set (map fst c @ [x]) = set (E @ [x])" using s by simp
    then show ?thesis unfolding img keys using d old new fresh
      by (simp add: sorted_wrt_append)
  qed
qed

lemma visit_one:
  "in_visit_order E c \<Longrightarrow> in_visit_order (E @ [x]) (counter_incr x c)"
  unfolding in_visit_order_def using visit_one_aux by blast

lemma visit_postings:
  "in_visit_order E c \<Longrightarrow> in_visit_order (E @ ps) (score_postings ps c)"
proof (induction ps arbitrary: E c)
  case Nil
  then show ?case by simp
next
  case (Cons p ps)
  from Cons.IH[OF visit_one[OF Cons.prems, of p]] show ?case by simp
qed

lemma visit_words:
  "in_visit_order E c \<Longrightarrow> in_visit_order (E @ encounters kw ws) (score_words kw ws c)"
proof (induction ws arbitrary: E c)
  case Nil
  then show ?case by (simp add: encounters_def)
next
  case (Cons w ws)
  from Cons.IH[OF visit_postings[OF Cons.prems, of "postings kw w"]] show ?case
    unfolding score_words_Cons by (simp add: encounters_def)
qed

lemma visit_product_scores:
  "in_visit_order (encounters (keywords self) (query_words query)) (product_scores self query)"
  unfolding product_scores_def
  using visit_words[of "[]" "[]" "keywords self" "query_words query"]
  by (simp add: in_visit_order_def)

lemma counter_get_product_scores:
  "counter_get (product_scores self query) p =
     (\<Sum>w\<leftarrow>query_words query. count_list (postings (keywords self) w) p)"
  by (simp add: product_scores_def counter_get_score_words)

lemma counter_get_member:
  "distinct (map fst c) \<Longrightarrow> (p, s) \<in> set c \<Longrightarrow> counter_get c p = s"
  by (induction c) (auto simp: rev_image_eqI)

lemma encounters_below:
  "i \<in> set (encounters (extract_keywords ps) ws) \<Longrightarrow> i < length ps"
  by (auto simp: encounters_def dest: set_postings_extract_keywords)

text \<open>Stability of the sort, read off the positions of the sorted list.\<close>

lemma sorted_wrt_filter_nth:
  "sorted_wrt R (filter P xs) \<Longrightarrow> a < b \<Longrightarrow> b < length xs \<Longrightarrow> P (xs ! a) \<Longrightarrow> P (xs ! b)
    \<Longrightarrow> R (xs ! a) (xs ! b)"
proof (induction xs arbitrary: a b)
  case Nil
  then show ?case by simp
next
  case (Cons x xs)
  obtain b' where b: "b = Suc b'" using Cons.prems(2) by (cases b) auto
  show ?case
  proof (cases a)
    case 0
    then have "P x" using Cons.prems(4) by simp
    moreover have "xs ! b' \<in> set (filter P xs)"
      using Cons.prems(3,5) b by simp
    ultimately show ?thesis using Cons.prems(1) 0 b by auto
  next
    case (Suc a')
    have "sorted_wrt R (filter P xs)" using Cons.prems(1) by (cases "P x") auto
    from Cons.IH[OF this, of a' b'] show ?thesis using Cons.prems Suc b by simp
  qed
qed

lemma sort_key_stable_nth:
  assumes "sorted_wrt R xs" and "a < b" and "b < length xs"
    and "f (sort_key f xs ! a) = f (sort_key f xs ! b)"
  shows "R (sort_key f xs ! a) (sort_key f xs ! b)"
proof -
  define k where "k = f (sort_key f xs ! b)"
  define ys where "ys = sort_key f xs"
  have "sorted_wrt R (filter (\<lambda>y. f y = k) xs)"
    using assms(1) by (rule sorted_wrt_filter)
  then have sorted: "sorted_wrt R (filter (\<lambda>y. f y = k) ys)"
    unfolding ys_def by (subst sort_key_stable)
  have len: "b < length ys" using assms(3) by (simp add: ys_def)
  have ka: "f (ys ! a) = k" and kb: "f (ys ! b) = k"
    using assms(4) by (simp_all only: k_def ys_def)
  have "R (ys ! a) (ys ! b)"
    by (rule sorted_wrt_filter_nth[OF sorted assms(2) len ka kb])
  then show ?thesis by (simp only: ys_def)
qed

section \<open>Retrieval\<close>

lemma counter_keys_below:
  "(p, s) \<in> set (product_scores (SimpleRAG R) Q) \<Longrightarrow> p < length R"
proof -
  assume "(p, s) \<in> set (product_scores (SimpleRAG R) Q)"
  then have "p \<in> fst ` set (product_scores (SimpleRAG R) Q)" by force
  then have "p \<in> set (encounters (extract_keywords R) (query_words Q))"
    using visit_product_scores[of "SimpleRAG R" Q] by (simp add: in_visit_order_def SimpleRAG_def)
  then show ?thesis by (rule encounters_below)
qed

lemma set_ranking:
  "set (ranking self Q k) \<subseteq> set (product_scores self Q)"
  unfolding ranking_def most_common_def
  by (metis set_take_subset set_sort)

lemma length_product_scores:
  "length (product_scores (SimpleRAG R) Q) \<le> length R"
proof -
  let ?ks = "map fst (product_scores (SimpleRAG R) Q)"
  have d: "distinct ?ks"
    using visit_product_scores[of "SimpleRAG R" Q] by (simp add: in_visit_order_def)
  have "set ?ks \<subseteq> {..<length R}"
    using counter_keys_below by auto
  then have "card (set ?ks) \<le> card {..<length R}"
    by (intro card_mono) auto
  then show ?thesis using distinct_card[OF d] by simp
qed

lemma length_ranking:
  "length (ranking (SimpleRAG R) Q k) \<le> min (nat k) (length R)"
  using length_product_scores[of R Q] by (simp add: ranking_def most_common_def)

lemma top_products_map:
  "\<forall>(p, s) \<in> set r. p < length ps \<Longrightarrow>
     top_products ps r = Inr (map (\<lambda>(p, s). \<lparr>item = ps ! p, relevance_score = Some s\<rparr>) r)"
  by (induction r) auto

lemma top_products_ranking:
  "top_products R (ranking (SimpleRAG R) Q k) =
     Inr (map (\<lambda>(p, s). \<lparr>item = R ! p, relevance_score = Some s\<rparr>) (ranking (SimpleRAG R) Q k))"
  using set_ranking[of "SimpleRAG R" Q k] counter_keys_below[of _ _ R Q]
  by (intro top_products_map) auto

lemma retrieve_relevant_products_eq:
  "retrieve_relevant_products (SimpleRAG R) Q k =
     Inr (if ranking (SimpleRAG R) Q k = [] then map unscored (slice_to R k)
          else map (\<lambda>(p, s). \<lparr>item = R ! p, relevance_score = Some s\<rparr>) (ranking (SimpleRAG R) Q k))"
  unfolding retrieve_relevant_products_def
  by (simp add: top_products_ranking[unfolded SimpleRAG_def] SimpleRAG_def)

lemma length_slice_to:
  "length (slice_to xs k) \<le> length xs" "0 \<le> k \<Longrightarrow> length (slice_to xs k) \<le> min (nat k) (length xs)"
  by (auto simp: slice_to_def)

text \<open>
  Claim C4, amended. On the index built from its own records the Relevance Scorer never
  raises: it returns a list, also for an empty collection. The list is never longer than
  the collection, and for a bound \<open>top_k \<ge> 0\<close> its length is at most
  \<open>min(top_k, |R|)\<close>.
\<close>

theorem retrieve_returns_bounded_list:
  "\<exists>out. retrieve_relevant_products (SimpleRAG R) Q k = Inr out \<and> length out \<le> length R \<and>
     (0 \<le> k \<longrightarrow> int (length out) \<le> min k (int (length R)))"
proof -
  let ?r = "ranking (SimpleRAG R) Q k"
  show ?thesis
  proof (cases "?r = []")
    case True
    then show ?thesis
      using length_slice_to[where xs = R and k = k] by (auto simp: retrieve_relevant_products_eq)
  next
    case False
    have "0 < k" using False by (cases "0 < k") (auto simp: ranking_def most_common_def)
    then show ?thesis
      using False length_ranking[of R Q k] by (auto simp: retrieve_relevant_products_eq)
  qed
qed

theorem retrieve_returns_bounded_list_witness:
  "(0::int) \<le> 1 \<and>
   (\<exists>out. retrieve_relevant_products (SimpleRAG [widget, gadget]) ''stock'' 1 = Inr out \<and>
      length out \<le> length [widget, gadget] \<and> int (length out) \<le> min 1 (int (length [widget, gadget])))"
  using retrieve_returns_bounded_list[of "[widget, gadget]" "''stock''" 1] by simp

text \<open>
  With \<open>top_k = -1\<close> nothing is ranked, and the fallback \<open>R[:-1]\<close> drops the last record
  only: one record is returned, more than \<open>min(-1, 2)\<close>.
\<close>

theorem retrieve_negative_top_k_counterexample:
  "retrieve_relevant_products (SimpleRAG [widget, gadget]) ''widget'' (- 1) = Inr [unscored widget] \<and>
   \<not> int (length [unscored widget]) \<le> min (- 1) (int (length [widget, gadget]))"
proof -
  have "retrieve_relevant_products (SimpleRAG [widget, gadget]) ''widget'' (- 1) = Inr [unscored widget]"
    by code_simp
  then show ?thesis by simp
qed

lemma score_words_no_match:
  "\<forall>w \<in> set ws. kw w = None \<Longrightarrow> score_words kw ws c = c"
  by (induction ws arbitrary: c) auto

lemma fallback_slice:
  assumes "\<forall>w \<in> set (query_words Q). keywords (SimpleRAG R) w = None"
  shows "retrieve_relevant_products (SimpleRAG R) Q k = Inr (map unscored (slice_to R k))"
proof -
  have "product_scores (SimpleRAG R) Q = []"
    unfolding product_scores_def using assms by (rule score_words_no_match)
  then have "ranking (SimpleRAG R) Q k = []"
    by (simp add: ranking_def most_common_def)
  then show ?thesis
    by (simp add: retrieve_relevant_products_eq)
qed

text \<open>
  Claim C2, amended. When no word of the query is a key of the index built from \<open>R\<close>, no
  returned record has a \<open>relevance_score\<close>, and for a bound \<open>top_k \<ge> 0\<close> the result is the
  first \<open>top_k\<close> records of \<open>R\<close>.
\<close>

theorem fallback_first_top_k:
  assumes "\<forall>w \<in> set (query_words Q). keywords (SimpleRAG R) w = None"
  shows "(0 \<le> k \<longrightarrow>
      retrieve_relevant_products (SimpleRAG R) Q k = Inr (map unscored (take (nat k) R))) \<and>
    (\<exists>out. retrieve_relevant_products (SimpleRAG R) Q k = Inr out \<and>
       (\<forall>h \<in> set out. relevance_score h = None))"
  using fallback_slice[OF assms, of k] by (auto simp: slice_to_def unscored_def)

theorem fallback_first_top_k_witness:
  "query_words ''laptop'' = [''laptop''] \<and> keywords (SimpleRAG [widget, gadget]) ''laptop'' = None \<and>
   (0::int) \<le> 1 \<and>
   retrieve_relevant_products (SimpleRAG [widget, gadget]) ''laptop'' 1 =
     Inr (map unscored (take (nat 1) [widget, gadget])) \<and>
   map unscored (take (nat 1) [widget, gadget]) = [unscored widget] \<and>
   relevance_score (unscored widget) = None"
proof -
  have q: "query_words ''laptop'' = [''laptop'']" by code_simp
  have n: "keywords (SimpleRAG [widget, gadget]) ''laptop'' = None" by code_simp
  have h: "\<forall>w \<in> set (query_words ''laptop''). keywords (SimpleRAG [widget, gadget]) w = None"
    using q n by simp
  from fallback_first_top_k[OF h, of 1] show ?thesis using q n by (simp add: unscored_def)
qed

text \<open>
  With \<open>top_k = -1\<close> the fallback \<open>R[:-1]\<close> returns all records but the last, not the
  empty list of the first \<open>-1\<close> records.
\<close>

theorem fallback_negative_top_k_counterexample:
  "query_words ''laptop'' = [''laptop''] \<and> keywords (SimpleRAG [widget, gadget]) ''laptop'' = None \<and>
   retrieve_relevant_products (SimpleRAG [widget, gadget]) ''laptop'' (- 1) = Inr [unscored widget] \<and>
   map unscored (take (nat (- 1)) [widget, gadget]) = [] \<and>
   [unscored widget] \<noteq> map unscored (take (nat (- 1)) [widget, gadget])"
proof -
  have q: "query_words ''laptop'' = [''laptop'']" by code_simp
  have n: "keywords (SimpleRAG [widget, gadget]) ''laptop'' = None" by code_simp
  have r: "retrieve_relevant_products (SimpleRAG [widget, gadget]) ''laptop'' (- 1) = Inr [unscored widget]"
    by code_simp
  show ?thesis using q n r by simp
qed

lemma ranking_descending:
  assumes "a < b" and "b < length (ranking self Q k)"
  shows "snd (ranking self Q k ! b) \<le> snd (ranking self Q k ! a)"
proof -
  let ?f = "\<lambda>(k, cnt). - int cnt" and ?c = "product_scores self Q"
  have b: "b < nat k" "b < length ?c" using assms(2) by (simp_all add: ranking_def most_common_def)
  have "sorted (map ?f (sort_key ?f ?c))" by (rule sorted_sort_key)
  then have "?f (sort_key ?f ?c ! a) \<le> ?f (sort_key ?f ?c ! b)"
    using assms(1) b by (simp add: sorted_iff_nth_mono)
  then show ?thesis
    using assms(1) b by (simp add: ranking_def most_common_def case_prod_unfold)
qed

lemma ranking_ties:
  assumes "a < b" and "b < length (ranking self Q k)"
  shows "snd (ranking self Q k ! b) \<le> snd (ranking self Q k ! a) \<and>
    (snd (ranking self Q k ! a) = snd (ranking self Q k ! b) \<longrightarrow>
     first_index (encounters (keywords self) (query_words Q)) (fst (ranking self Q k ! a))
       < first_index (encounters (keywords self) (query_words Q)) (fst (ranking self Q k ! b)))"
proof -
  let ?f = "\<lambda>(k, cnt). - int cnt" and ?c = "product_scores self Q"
  let ?E = "encounters (keywords self) (query_words Q)"
  let ?R = "\<lambda>x y. first_index ?E (fst x) < first_index ?E (fst y)"
  have b: "b < nat k" "b < length ?c" using assms(2) by (simp_all add: ranking_def most_common_def)
  then have nth: "ranking self Q k ! a = sort_key ?f ?c ! a" "ranking self Q k ! b = sort_key ?f ?c ! b"
    using assms(1) by (simp_all add: ranking_def most_common_def)
  have "sorted_wrt ?R ?c"
    using visit_product_scores[of self Q] by (simp add: in_visit_order_def sorted_wrt_map)
  from sort_key_stable_nth[OF this assms(1) b(2), of ?f]
  have "snd (sort_key ?f ?c ! a) = snd (sort_key ?f ?c ! b) \<longrightarrow> ?R (sort_key ?f ?c ! a) (sort_key ?f ?c ! b)"
    by (simp add: case_prod_unfold)
  then show ?thesis using ranking_descending[OF assms] nth by simp
qed

lemma slice_to_nth:
  "i < length (slice_to xs k) \<Longrightarrow> slice_to xs k ! i = xs ! i"
  by (auto simp: slice_to_def split: if_splits)

lemma ranking_empty_iff:
  "ranking self Q k = [] \<longleftrightarrow> k \<le> 0 \<or> product_scores self Q = []"
proof -
  have "sort_key (\<lambda>(k, cnt). - int cnt) (product_scores self Q) = [] \<longleftrightarrow>
      product_scores self Q = []"
    by (metis length_sort length_0_conv)
  then show ?thesis by (auto simp: ranking_def most_common_def take_eq_Nil)
qed

lemma ranking_accumulated:
  assumes "i < length (ranking self Q k)"
  shows "snd (ranking self Q k ! i) = counter_get (product_scores self Q) (fst (ranking self Q k ! i))"
proof -
  have "ranking self Q k ! i \<in> set (product_scores self Q)"
    using assms set_ranking[of self Q k] nth_mem by blast
  then have mem: "(fst (ranking self Q k ! i), snd (ranking self Q k ! i)) \<in> set (product_scores self Q)"
    by simp
  have "distinct (map fst (product_scores self Q))"
    using visit_product_scores[of self Q] by (simp add: in_visit_order_def)
  from counter_get_member[OF this mem] show ?thesis by simp
qed

text \<open>
  Claim C3, amended. When records are ranked (\<open>top_k > 0\<close> and some word of the query is
  in the index), the result lists the ranked records, each annotated with its accumulated
  score, in descending order of score, and two records of equal score appear in the order
  in which the scoring loops first visited their positions: the query's words from left
  to right, each postings list from front to back. Otherwise the result is the fallback
  \<open>R[:top_k]\<close>, whose records appear in the index order of \<open>R\<close>, whatever their scores.
\<close>

theorem output_order:
  fixes R :: "product list" and Q :: string and k :: int
  defines "r \<equiv> ranking (SimpleRAG R) Q k"
    and "scores \<equiv> product_scores (SimpleRAG R) Q"
    and "E \<equiv> encounters (keywords (SimpleRAG R)) (query_words Q)"
  assumes out: "retrieve_relevant_products (SimpleRAG R) Q k = Inr out"
  shows "(0 < k \<and> scores \<noteq> [] \<longrightarrow>
      length out = length r \<and>
      (\<forall>i < length out. item (out ! i) = R ! fst (r ! i) \<and>
         relevance_score (out ! i) = Some (counter_get scores (fst (r ! i)))) \<and>
      (\<forall>a b. a < b \<and> b < length out \<longrightarrow>
         counter_get scores (fst (r ! b)) \<le> counter_get scores (fst (r ! a)) \<and>
         (counter_get scores (fst (r ! a)) = counter_get scores (fst (r ! b)) \<longrightarrow>
            first_index E (fst (r ! a)) < first_index E (fst (r ! b))))) \<and>
    (k \<le> 0 \<or> scores = [] \<longrightarrow>
      out = map unscored (slice_to R k) \<and>
      (\<forall>i < length out. item (out ! i) = R ! i \<and> relevance_score (out ! i) = None))"
proof (intro conjI impI)
  assume "k \<le> 0 \<or> scores = []"
  then have "r = []" unfolding r_def scores_def by (simp add: ranking_empty_iff)
  then have eq: "out = map unscored (slice_to R k)"
    using out unfolding r_def by (simp add: retrieve_relevant_products_eq)
  then show "out = map unscored (slice_to R k)" .
  show "\<forall>i < length out. item (out ! i) = R ! i \<and> relevance_score (out ! i) = None"
    unfolding eq by (simp add: unscored_def slice_to_nth)
next
  assume "0 < k \<and> scores \<noteq> []"
  then have ne: "r \<noteq> []" unfolding r_def scores_def by (simp add: ranking_empty_iff)
  then have eq: "out = map (\<lambda>(p, s). \<lparr>item = R ! p, relevance_score = Some s\<rparr>) r"
    using out unfolding r_def by (simp add: retrieve_relevant_products_eq)
  then show len: "length out = length r" by simp
  have acc: "snd (r ! i) = counter_get scores (fst (r ! i))" if "i < length r" for i
    using that unfolding r_def scores_def by (rule ranking_accumulated)
  show "\<forall>i < length out. item (out ! i) = R ! fst (r ! i) \<and>
         relevance_score (out ! i) = Some (counter_get scores (fst (r ! i)))"
    using acc unfolding eq by (simp add: case_prod_unfold)
  show "\<forall>a b. a < b \<and> b < length out \<longrightarrow>
         counter_get scores (fst (r ! b)) \<le> counter_get scores (fst (r ! a)) \<and>
         (counter_get scores (fst (r ! a)) = counter_get scores (fst (r ! b)) \<longrightarrow>
            first_index E (fst (r ! a)) < first_index E (fst (r ! b)))"
  proof (intro allI impI)
    fix a b assume "a < b \<and> b < length out"
    then have ab: "a < b" and b: "b < length r" and a: "a < length r" using len by auto
    have ties: "snd (r ! b) \<le> snd (r ! a) \<and>
        (snd (r ! a) = snd (r ! b) \<longrightarrow> first_index E (fst (r ! a)) < first_index E (fst (r ! b)))"
      unfolding r_def E_def by (rule ranking_ties[OF ab b[unfolded r_def]])
    show "counter_get scores (fst (r ! b)) \<le> counter_get scores (fst (r ! a)) \<and>
         (counter_get scores (fst (r ! a)) = counter_get scores (fst (r ! b)) \<longrightarrow>
            first_index E (fst (r ! a)) < first_index E (fst (r ! b)))"
      using ties acc[OF a] acc[OF b] by simp
  qed
qed

theorem output_order_witness:
  "retrieve_relevant_products (SimpleRAG [gadget, widget]) ''widget gadget'' 5 =
     Inr [\<lparr>item = widget, relevance_score = Some 1\<rparr>, \<lparr>item = gadget, relevance_score = Some 1\<rparr>] \<and>
   (0::int) < 5 \<and>
   product_scores (SimpleRAG [gadget, widget]) ''widget gadget'' = [(1, 1), (0, 1)] \<and>
   ranking (SimpleRAG [gadget, widget]) ''widget gadget'' 5 = [(1, 1), (0, 1)] \<and>
   encounters (keywords (SimpleRAG [gadget, widget])) (query_words ''widget gadget'') = [1, 0] \<and>
   first_index [1, 0 :: nat] 1 < first_index [1, 0 :: nat] 0 \<and>
   retrieve_relevant_products (SimpleRAG [gadget, widget, title_only]) ''widget gadget'' (- 1) =
     Inr [unscored gadget, unscored widget] \<and>
   (- 1 :: int) \<le> 0 \<and>
   item ([unscored gadget, unscored widget] ! 1) = [gadget, widget, title_only] ! 1 \<and>
   relevance_score ([unscored gadget, unscored widget] ! 1) = None"
proof -
  have out: "retrieve_relevant_products (SimpleRAG [gadget, widget]) ''widget gadget'' 5 =
     Inr [\<lparr>item = widget, relevance_score = Some 1\<rparr>, \<lparr>item = gadget, relevance_score = Some 1\<rparr>]"
    by code_simp
  have s: "product_scores (SimpleRAG [gadget, widget]) ''widget gadget'' = [(1, 1), (0, 1)]"
    by code_simp
  have r: "ranking (SimpleRAG [gadget, widget]) ''widget gadget'' 5 = [(1, 1), (0, 1)]"
    by code_simp
  have e: "encounters (keywords (SimpleRAG [gadget, widget])) (query_words ''widget gadget'') = [1, 0]"
    by code_simp
  have fb: "retrieve_relevant_products (SimpleRAG [gadget, widget, title_only]) ''widget gadget'' (- 1) =
     Inr [unscored gadget, unscored widget]"
    by code_simp
  have pre: "0 < (5::int) \<and> product_scores (SimpleRAG [gadget, widget]) ''widget gadget'' \<noteq> []"
    by (simp add: s)
  have post: "(- 1 :: int) \<le> 0 \<or> product_scores (SimpleRAG [gadget, widget, title_only]) ''widget gadget'' = []"
    by simp
  note ranked = output_order[OF out, THEN conjunct1, THEN mp, OF pre]
  note fallen = output_order[OF fb, THEN conjunct2, THEN mp, OF post]
  have "first_index [1, 0 :: nat] 1 < first_index [1, 0 :: nat] 0"
    using ranked[THEN conjunct2, THEN conjunct2, THEN spec, THEN spec, of 0 1]
    unfolding s r e by simp
  moreover have "item ([unscored gadget, unscored widget] ! 1) = [gadget, widget, title_only] ! 1 \<and>
     relevance_score ([unscored gadget, unscored widget] ! 1) = None"
    using fallen[THEN conjunct2, THEN spec, of 1] by simp
  ultimately show ?thesis using out s r e fb by simp
qed

text \<open>
  The query names the record at position 1 first: both records score 1, and position 1
  precedes position 0 in the result.
\<close>

theorem ties_in_index_order_counterexample:
  "ranking (SimpleRAG [gadget, widget]) ''widget gadget'' 5 = [(1, 1), (0, 1)] \<and>
   retrieve_relevant_products (SimpleRAG [gadget, widget]) ''widget gadget'' 5 =
     Inr [\<lparr>item = widget, relevance_score = Some 1\<rparr>, \<lparr>item = gadget, relevance_score = Some 1\<rparr>] \<and>
   [gadget, widget] ! 0 = gadget \<and> [gadget, widget] ! 1 = widget"
proof -
  have "ranking (SimpleRAG [gadget, widget]) ''widget gadget'' 5 = [(1, 1), (0, 1)]" by code_simp
  moreover have "retrieve_relevant_products (SimpleRAG [gadget, widget]) ''widget gadget'' 5 =
     Inr [\<lparr>item = widget, relevance_score = Some 1\<rparr>, \<lparr>item = gadget, relevance_score = Some 1\<rparr>]"
    by code_simp
  ultimately show ?thesis by simp
qed

text \<open>
  Claim C1, amended. The score of a record is the number of matched occurrences: the sum,
  over the words of the query with their repetitions, of the number of times the word
  occurs among the indexed words of the record. Every \<open>relevance_score\<close> of the result is
  that score of the record it annotates.
\<close>

theorem score_counts_occurrences:
  "(\<forall>p < length R. counter_get (product_scores (SimpleRAG R) Q) p =
        (\<Sum>w\<leftarrow>query_words Q. count_list (indexed_words (R ! p)) w)) \<and>
   (\<forall>out h s. retrieve_relevant_products (SimpleRAG R) Q k = Inr out \<longrightarrow> h \<in> set out \<longrightarrow>
        relevance_score h = Some s \<longrightarrow>
        (\<exists>p < length R. item h = R ! p \<and> s = counter_get (product_scores (SimpleRAG R) Q) p))"
proof (intro conjI allI impI)
  fix p assume "p < length R"
  then show "counter_get (product_scores (SimpleRAG R) Q) p =
        (\<Sum>w\<leftarrow>query_words Q. count_list (indexed_words (R ! p)) w)"
    by (simp add: counter_get_product_scores SimpleRAG_def count_postings_extract_keywords)
next
  fix out h s
  let ?r = "ranking (SimpleRAG R) Q k"
  assume out: "retrieve_relevant_products (SimpleRAG R) Q k = Inr out" and h: "h \<in> set out"
    and s: "relevance_score h = Some s"
  have "?r \<noteq> []"
    using out h s by (auto simp: retrieve_relevant_products_eq unscored_def split: if_splits)
  then have "out = map (\<lambda>(p, s). \<lparr>item = R ! p, relevance_score = Some s\<rparr>) ?r"
    using out by (simp add: retrieve_relevant_products_eq)
  then obtain p s' where ps: "(p, s') \<in> set ?r" and heq: "h = \<lparr>item = R ! p, relevance_score = Some s'\<rparr>"
    using h by auto
  have mem: "(p, s) \<in> set (product_scores (SimpleRAG R) Q)"
    using ps heq s set_ranking[of "SimpleRAG R" Q k] by auto
  have "distinct (map fst (product_scores (SimpleRAG R) Q))"
    using visit_product_scores[of "SimpleRAG R" Q] by (simp add: in_visit_order_def)
  from counter_get_member[OF this mem] counter_keys_below[OF mem] heq
  show "\<exists>p < length R. item h = R ! p \<and> s = counter_get (product_scores (SimpleRAG R) Q) p"
    by auto
qed

theorem score_counts_occurrences_witness:
  "(0::nat) < length [twice] \<and>
   counter_get (product_scores (SimpleRAG [twice]) ''widget'') 0 =
     (\<Sum>w\<leftarrow>query_words ''widget''. count_list (indexed_words ([twice] ! 0)) w) \<and>
   retrieve_relevant_products (SimpleRAG [twice]) ''widget'' 5 = Inr [\<lparr>item = twice, relevance_score = Some 2\<rparr>] \<and>
   (\<exists>p < length [twice]. item \<lparr>item = twice, relevance_score = Some 2\<rparr> = [twice] ! p \<and>
       2 = counter_get (product_scores (SimpleRAG [twice]) ''widget'') p)"
proof -
  have out: "retrieve_relevant_products (SimpleRAG [twice]) ''widget'' 5 =
     Inr [\<lparr>item = twice, relevance_score = Some 2\<rparr>]" by code_simp
  from score_counts_occurrences[of "[twice]" "''widget''" 5] out show ?thesis by simp
qed

text \<open>
  One query word matches a record that holds it twice: the score is 2, the number of
  distinct query words matched is 1.
\<close>

theorem score_above_distinct_tokens_counterexample:
  "counter_get (product_scores (SimpleRAG [twice]) ''widget'') 0 = 2 \<and>
   card (set (query_words ''widget'') \<inter> set (indexed_words ([twice] ! 0))) = 1 \<and>
   retrieve_relevant_products (SimpleRAG [twice]) ''widget'' 5 =
     Inr [\<lparr>item = twice, relevance_score = Some 2\<rparr>]"
proof -
  have "counter_get (product_scores (SimpleRAG [twice]) ''widget'') 0 = 2" by code_simp
  moreover have "query_words ''widget'' = [''widget'']" by code_simp
  moreover have "indexed_words ([twice] ! 0) = [''widget'', ''widget'']" by code_simp
  moreover have "retrieve_relevant_products (SimpleRAG [twice]) ''widget'' 5 =
     Inr [\<lparr>item = twice, relevance_score = Some 2\<rparr>]" by code_simp
  ultimately show ?thesis by simp
qed

text \<open>
  Claim C5. Every position in a postings list of the index built from \<open>R\<close> is a valid
  index into \<open>R\<close>.
\<close>

theorem postings_in_range:
  "keywords (SimpleRAG R) w = Some ps \<Longrightarrow> i \<in> set ps \<Longrightarrow> 0 \<le> i \<and> i < length R"
  using set_postings_extract_keywords[of i R w] by (simp add: SimpleRAG_def postings_def)

theorem postings_in_range_witness:
  "keywords (SimpleRAG [widget, gadget]) ''gadget'' = Some [1] \<and> 1 \<in> set [1::nat] \<and>
   (0::nat) \<le> 1 \<and> 1 < length [widget, gadget]"
proof -
  have k: "keywords (SimpleRAG [widget, gadget]) ''gadget'' = Some [1]" by code_simp
  from postings_in_range[OF k, of 1] show ?thesis using k by simp
qed

section \<open>The criteria filter\<close>

lemma filter_loop_all_return:
  "\<forall>p \<in> set ps. \<exists>b. matches f c p = Inr b \<Longrightarrow>
     filter_loop f c ps acc = Inr (acc @ filter (\<lambda>p. matches f c p = Inr True) ps)"
proof (induction ps arbitrary: acc)
  case Nil
  then show ?case by simp
next
  case (Cons p ps)
  then obtain b where b: "matches f c p = Inr b" by auto
  have "\<forall>p \<in> set ps. \<exists>b. matches f c p = Inr b" using Cons.prems by simp
  from Cons.IH[OF this] show ?case using b by simp
qed

lemma filter_loop_returns:
  "filter_loop f c ps acc = Inr out \<Longrightarrow> \<forall>p \<in> set ps. \<exists>b. matches f c p = Inr b"
proof (induction ps arbitrary: acc)
  case Nil
  then show ?case by simp
next
  case (Cons p ps)
  then show ?case by (cases "matches f c p") auto
qed

lemma filter_by_criteria_returns:
  "filter_by_criteria f self c = Inr out \<longleftrightarrow>
     (\<forall>p \<in> set (products self). \<exists>b. matches f c p = Inr b) \<and>
     out = filter (\<lambda>p. matches f c p = Inr True) (products self)"
  unfolding filter_by_criteria_def
  using filter_loop_returns[of f c "products self" "[]" out]
    filter_loop_all_return[of "products self" f c "[]"]
  by auto

lemma subseq_filter_imp:
  "\<forall>p \<in> set ps. P p \<longrightarrow> Q p \<Longrightarrow> subseq (filter P ps) (filter Q ps)"
  by (induction ps) auto



text \<open>
  Each block either raises, whatever the flag, or returns the flag lowered by a test of
  its own.
\<close>

lemma rating_filtering_flag:
  "rating_filtering f c p m = Inr b \<longleftrightarrow>
     (\<exists>b2. rating_filtering f c p True = Inr b2 \<and> b = (m \<and> b2))"
  by (auto simp: rating_filtering_def split: option.splits)

lemma availability_filtering_flag:
  "availability_filtering c p m = Inr b \<longleftrightarrow>
     (\<exists>b3. availability_filtering c p True = Inr b3 \<and> b = (m \<and> b3))"
  by (auto simp: availability_filtering_def split: option.splits)

lemma matches_Inr_iff:
  "matches f c p = Inr b \<longleftrightarrow>
     (\<exists>b1 b2 b3. price_filtering f c p True = Inr b1 \<and> rating_filtering f c p True = Inr b2 \<and>
        availability_filtering c p True = Inr b3 \<and> b = (b1 \<and> b2 \<and> b3))"
proof (cases "price_filtering f c p True")
  case (Inl e)
  then show ?thesis by (simp add: matches_def)
next
  case (Inr b1)
  show ?thesis
  proof (cases "rating_filtering f c p b1")
    case (Inl e)
    then have "\<And>b2. rating_filtering f c p True \<noteq> Inr b2"
      using rating_filtering_flag[of f c p b1] by auto
    then show ?thesis using Inr Inl by (simp add: matches_def)
  next
    case m2: (Inr m2)
    then obtain b2 where b2: "rating_filtering f c p True = Inr b2" "m2 = (b1 \<and> b2)"
      using rating_filtering_flag[of f c p b1 m2] by auto
    have "matches f c p = availability_filtering c p m2"
      using Inr m2 by (simp add: matches_def)
    then show ?thesis
      using Inr b2 availability_filtering_flag[of c p m2 b] by auto
  qed
qed


text \<open>A block reads its own keys of the criteria only.\<close>

lemma price_filtering_other_keys:
  "price_filtering f (c\<lparr>min_rating := r\<rparr>) p m = price_filtering f c p m"
  "price_filtering f (c\<lparr>available_only := a\<rparr>) p m = price_filtering f c p m"
  by (simp_all add: price_filtering_def Let_def split: option.splits)

lemma rating_filtering_other_keys:
  "rating_filtering f (c\<lparr>min_price := x\<rparr>) p m = rating_filtering f c p m"
  "rating_filtering f (c\<lparr>max_price := y\<rparr>) p m = rating_filtering f c p m"
  "rating_filtering f (c\<lparr>available_only := a\<rparr>) p m = rating_filtering f c p m"
  by (simp_all add: rating_filtering_def)

lemma availability_filtering_other_keys:
  "availability_filtering (c\<lparr>min_price := x\<rparr>) p m = availability_filtering c p m"
  "availability_filtering (c\<lparr>max_price := y\<rparr>) p m = availability_filtering c p m"
  "availability_filtering (c\<lparr>min_rating := r\<rparr>) p m = availability_filtering c p m"
  by (simp_all add: availability_filtering_def)

text \<open>The block whose bound is tightened returns when it did before, and no more often True.\<close>

lemma price_filtering_raise_min:
  assumes "\<forall>lo. min_price c = Some lo \<longrightarrow> lo \<le> lo'"
    and "price_filtering f (c\<lparr>min_price := Some lo'\<rparr>) p True = Inr b'"
  shows "\<exists>b. price_filtering f c p True = Inr b \<and> (b' \<longrightarrow> b)"
proof (cases "search_number digit_or_comma (strip_commas (case get_or_empty (price p) of None \<Rightarrow> [] | Some t \<Rightarrow> t))")
  case None
  then show ?thesis using assms
    by (auto simp: price_filtering_def split: option.splits if_splits)
next
  case (Some m)
  then show ?thesis using assms
    by (cases "min_price c"; cases "max_price c")
       (auto simp: price_filtering_def Let_def split: option.splits if_splits)
qed

lemma price_filtering_lower_max:
  assumes "\<forall>hi. max_price c = Some hi \<longrightarrow> hi' \<le> hi"
    and "price_filtering f (c\<lparr>max_price := Some hi'\<rparr>) p True = Inr b'"
  shows "\<exists>b. price_filtering f c p True = Inr b \<and> (b' \<longrightarrow> b)"
proof (cases "search_number digit_or_comma (strip_commas (case get_or_empty (price p) of None \<Rightarrow> [] | Some t \<Rightarrow> t))")
  case None
  then show ?thesis using assms
    by (auto simp: price_filtering_def split: option.splits if_splits)
next
  case (Some m)
  then show ?thesis using assms
    by (cases "min_price c"; cases "max_price c")
       (auto simp: price_filtering_def Let_def split: option.splits if_splits)
qed

lemma rating_filtering_raise_min:
  assumes "\<forall>lo. min_rating c = Some lo \<longrightarrow> lo \<le> lo'"
    and "rating_filtering f (c\<lparr>min_rating := Some lo'\<rparr>) p True = Inr b'"
  shows "\<exists>b. rating_filtering f c p True = Inr b \<and> (b' \<longrightarrow> b)"
  using assms
  by (cases "min_rating c") (auto simp: rating_filtering_def split: option.splits if_splits)

lemma availability_filtering_set:
  assumes "availability_filtering (c\<lparr>available_only := Some True\<rparr>) p True = Inr b'"
  shows "\<exists>b. availability_filtering c p True = Inr b \<and> (b' \<longrightarrow> b)"
  using assms
  by (auto simp: availability_filtering_def split: option.splits if_splits)

lemma matches_tightens:
  assumes "tightens c c'" and "matches f c' p = Inr b'"
  shows "\<exists>b. matches f c p = Inr b \<and> (b' \<longrightarrow> b)"
  using assms
proof (induction rule: tightens.induct)
  case (raise_min_price c lo')
  from raise_min_price(2) obtain b1 b2 b3 where
    "price_filtering f (c\<lparr>min_price := Some lo'\<rparr>) p True = Inr b1"
    and r: "rating_filtering f c p True = Inr b2" and a: "availability_filtering c p True = Inr b3"
    and b': "b' = (b1 \<and> b2 \<and> b3)"
    unfolding matches_Inr_iff rating_filtering_other_keys availability_filtering_other_keys by blast
  from price_filtering_raise_min[OF raise_min_price(1) this(1)]
  obtain b where "price_filtering f c p True = Inr b" "b1 \<longrightarrow> b" by blast
  then show ?case unfolding matches_Inr_iff using r a b' by auto
next
  case (lower_max_price c hi')
  from lower_max_price(2) obtain b1 b2 b3 where
    "price_filtering f (c\<lparr>max_price := Some hi'\<rparr>) p True = Inr b1"
    and r: "rating_filtering f c p True = Inr b2" and a: "availability_filtering c p True = Inr b3"
    and b': "b' = (b1 \<and> b2 \<and> b3)"
    unfolding matches_Inr_iff rating_filtering_other_keys availability_filtering_other_keys by blast
  from price_filtering_lower_max[OF lower_max_price(1) this(1)]
  obtain b where "price_filtering f c p True = Inr b" "b1 \<longrightarrow> b" by blast
  then show ?case unfolding matches_Inr_iff using r a b' by auto
next
  case (raise_min_rating c lo')
  from raise_min_rating(2) obtain b1 b2 b3 where
    pr: "price_filtering f c p True = Inr b1"
    and "rating_filtering f (c\<lparr>min_rating := Some lo'\<rparr>) p True = Inr b2"
    and a: "availability_filtering c p True = Inr b3"
    and b': "b' = (b1 \<and> b2 \<and> b3)"
    unfolding matches_Inr_iff price_filtering_other_keys availability_filtering_other_keys by blast
  from rating_filtering_raise_min[OF raise_min_rating(1) this(2)]
  obtain b where "rating_filtering f c p True = Inr b" "b2 \<longrightarrow> b" by blast
  then show ?case unfolding matches_Inr_iff using pr a b' by auto
next
  case (set_available_only c)
  from set_available_only obtain b1 b2 b3 where
    pr: "price_filtering f c p True = Inr b1" and r: "rating_filtering f c p True = Inr b2"
    and "availability_filtering (c\<lparr>available_only := Some True\<rparr>) p True = Inr b3"
    and b': "b' = (b1 \<and> b2 \<and> b3)"
    unfolding matches_Inr_iff price_filtering_other_keys rating_filtering_other_keys by blast
  from availability_filtering_set[OF this(3)]
  obtain b where "availability_filtering c p True = Inr b" "b3 \<longrightarrow> b" by blast
  then show ?case unfolding matches_Inr_iff using pr r b' by auto
qed

text \<open>
  On records whose \<open>price\<close>, \<open>rating\<close> and \<open>availability\<close> are text or missing keys the
  loop body never raises; a price text without a digit lowers the flag when a price bound
  is set; and with \<open>available_only\<close> the flag stays up exactly when the other two blocks
  pass and the lower-cased availability text holds neither phrase.
\<close>

lemma search_number_None_iff:
  "search_number h s = None \<longleftrightarrow> (\<forall>c \<in> set s. \<not> h c)"
  by (induction s) auto

lemma matches_returns:
  assumes "price p \<noteq> PyNone" and "rating p \<noteq> PyNone" and "availability p \<noteq> PyNone"
  shows "\<exists>b. matches f c p = Inr b"
proof -
  obtain t where t: "get_or_empty (price p) = Some t" using assms(1) by (cases "price p") auto
  obtain r where r: "get_or_empty (rating p) = Some r" using assms(2) by (cases "rating p") auto
  obtain a where a: "get_or_empty (availability p) = Some a"
    using assms(3) by (cases "availability p") auto
  have "\<exists>b. price_filtering f c p True = Inr b"
    using t by (auto simp: price_filtering_def Let_def split: option.splits)
  moreover have "\<exists>b. rating_filtering f c p True = Inr b"
    using r by (auto simp: rating_filtering_def split: option.splits)
  moreover have "\<exists>b. availability_filtering c p True = Inr b"
    using a by (auto simp: availability_filtering_def)
  ultimately show ?thesis unfolding matches_Inr_iff by blast
qed

lemma filter_by_criteria_total:
  assumes "\<forall>p \<in> set (products self).
      price p \<noteq> PyNone \<and> rating p \<noteq> PyNone \<and> availability p \<noteq> PyNone"
  shows "\<exists>out. filter_by_criteria f self c = Inr out"
  using assms matches_returns[of _ f c] by (simp add: filter_by_criteria_returns)

lemma price_without_number_excluded:
  assumes "min_price c \<noteq> None \<or> max_price c \<noteq> None"
    and "get_or_empty (price p) = Some t"
    and "\<forall>ch \<in> set (strip_commas t). \<not> is_digit ch"
    and "filter_by_criteria f self c = Inr out"
  shows "p \<notin> set out"
proof -
  have "\<forall>ch \<in> set (strip_commas t). \<not> digit_or_comma ch"
    using assms(3) by (auto simp: digit_or_comma_def strip_commas_def)
  then have "search_number digit_or_comma (strip_commas t) = None"
    by (simp add: search_number_None_iff)
  then have "price_filtering f c p True = Inr False"
    using assms(1,2) by (auto simp: price_filtering_def)
  then have "matches f c p \<noteq> Inr True"
    using matches_Inr_iff[of f c p True] by auto
  then show ?thesis
    using assms(4) by (simp add: filter_by_criteria_returns)
qed

lemma available_only_keeps_iff:
  assumes "available_only c = Some True" and "get_or_empty (availability p) = Some a"
  shows "matches f c p = Inr True \<longleftrightarrow>
    price_filtering f c p True = Inr True \<and> rating_filtering f c p True = Inr True \<and>
    \<not> sublist ''out of stock'' (lower a) \<and> \<not> sublist ''unavailable'' (lower a)"
proof -
  have "availability_filtering c p True =
      Inr (\<not> (sublist ''out of stock'' (lower a) \<or> sublist ''unavailable'' (lower a)))"
    using assms by (simp add: availability_filtering_def)
  then show ?thesis unfolding matches_Inr_iff by auto
qed

text \<open>
  Claim C6. A record whose price text holds no number is to be excluded without an
  exception when a price bound is set. The code raises instead on the records the scraper
  produces: a \<open>price\<close> that is \<open>None\<close> reaches \<open>price_text.replace\<close>, and after a price
  text without a number the rating block hands a \<open>None\<close> rating to \<open>re.search\<close>.
\<close>

theorem filter_raises_on_none_price:
  "filter_by_criteria f (SimpleRAG [title_only]) (no_criteria\<lparr>min_price := Some lo\<rparr>) = Inl AttributeError \<and>
   filter_by_criteria f (SimpleRAG [price_on_request])
     (no_criteria\<lparr>min_price := Some lo, min_rating := Some r\<rparr>) = Inl TypeError"
  by (simp add: filter_by_criteria_def SimpleRAG_def title_only_def price_on_request_def no_criteria_def
      matches_def price_filtering_def rating_filtering_def strip_commas_def digit_or_comma_def is_digit_def)

text \<open>
  Claim C7. With \<open>available_only\<close> a record without availability text is to pass the
  availability test. For the scraper's record without an availability element the key
  holds \<open>None\<close>, the default of \<open>get\<close> is not used, and \<open>.lower()\<close> raises.
\<close>

theorem filter_raises_on_none_availability:
  "filter_by_criteria f (SimpleRAG [title_only]) (no_criteria\<lparr>available_only := Some True\<rparr>)
     = Inl AttributeError"
  by (simp add: filter_by_criteria_def SimpleRAG_def title_only_def no_criteria_def
      matches_def price_filtering_def rating_filtering_def availability_filtering_def)

text \<open>
  Claim C8. When one bound is tightened and the filter returns under the tighter
  criteria, it returns under the looser criteria too, and the tighter output is a
  subsequence of the looser one, so it is no longer. On records without \<open>None\<close> fields
  the filter always returns (\<open>filter_by_criteria_total\<close>).
\<close>

theorem filter_monotone:
  assumes "tightens c c'" and "filter_by_criteria f self c' = Inr out'"
  shows "\<exists>out. filter_by_criteria f self c = Inr out \<and> subseq out' out \<and> length out' \<le> length out"
proof -
  let ?ps = "products self"
  have ret': "\<forall>p \<in> set ?ps. \<exists>b. matches f c' p = Inr b"
    and out': "out' = filter (\<lambda>p. matches f c' p = Inr True) ?ps"
    using assms(2) by (simp_all add: filter_by_criteria_returns)
  have step: "\<exists>b. matches f c p = Inr b \<and> (matches f c' p = Inr True \<longrightarrow> b)" if "p \<in> set ?ps" for p
  proof -
    from ret' that obtain b' where b': "matches f c' p = Inr b'" by auto
    from matches_tightens[OF assms(1) b'] show ?thesis using b' by auto
  qed
  then have ret: "\<forall>p \<in> set ?ps. \<exists>b. matches f c p = Inr b" by blast
  let ?out = "filter (\<lambda>p. matches f c p = Inr True) ?ps"
  have eq: "filter_by_criteria f self c = Inr ?out"
    using ret by (simp add: filter_by_criteria_returns)
  have "matches f c p = Inr True" if "p \<in> set ?ps" and "matches f c' p = Inr True" for p
    using step[OF that(1)] that(2) by auto
  then have "\<forall>p \<in> set ?ps. matches f c' p = Inr True \<longrightarrow> matches f c p = Inr True"
    by blast
  then have sub: "subseq out' ?out"
    unfolding out' by (rule subseq_filter_imp)
  then have "length out' \<le> length ?out" by (rule list_emb_length)
  then show ?thesis using eq sub by blast
qed

theorem filter_monotone_witness:
  "tightens (no_criteria\<lparr>min_price := Some (5::nat)\<rparr>) (no_criteria\<lparr>min_price := Some 5\<rparr>\<lparr>min_price := Some 20\<rparr>) \<and>
   filter_by_criteria whole_part (SimpleRAG [widget, gadget])
       (no_criteria\<lparr>min_price := Some 5\<rparr>\<lparr>min_price := Some 20\<rparr>) = Inr [gadget] \<and>
   filter_by_criteria whole_part (SimpleRAG [widget, gadget]) (no_criteria\<lparr>min_price := Some 5\<rparr>)
     = Inr [widget, gadget] \<and>
   subseq [gadget] [widget, gadget] \<and> length [gadget] \<le> length [widget, gadget]"
proof -
  have t: "tightens (no_criteria\<lparr>min_price := Some (5::nat)\<rparr>)
      (no_criteria\<lparr>min_price := Some 5\<rparr>\<lparr>min_price := Some 20\<rparr>)"
    by (rule tightens.raise_min_price) (simp add: no_criteria_def)
  have r': "filter_by_criteria whole_part (SimpleRAG [widget, gadget])
       (no_criteria\<lparr>min_price := Some 5\<rparr>\<lparr>min_price := Some 20\<rparr>) = Inr [gadget]"
    by code_simp
  have r: "filter_by_criteria whole_part (SimpleRAG [widget, gadget]) (no_criteria\<lparr>min_price := Some 5\<rparr>)
     = Inr [widget, gadget]"
    by code_simp
  from filter_monotone[OF t r'] show ?thesis using t r r' by simp
qed

section \<open>The intent analyzer\<close>

lemma sort_by_after_price_range [simp]:
  "sort_by (price_range_intent f ql i) = sort_by i"
  "available_only (price_range_intent f ql i) = available_only i"
  by (simp_all add: price_range_intent_def Let_def split: option.splits)

lemma sort_by_after_availability [simp]:
  "sort_by (availability_intent ql i) = sort_by i"
  by (simp add: availability_intent_def)

lemma lower_available: "lower ''available'' = ''available''"
  by (simp add: lower_def lower_char_def)

text \<open>
  Claim C9. When the lower-cased query holds a price phrase and a rating phrase, the
  price test sets \<open>sort_by\<close> first and the rating test, which runs after it, overwrites
  it: the result carries the rating order.
\<close>

theorem rating_intent_overrides_price_intent:
  assumes "any_in cheap_phrases (lower q) \<or> any_in expensive_phrases (lower q)"
    and "any_in best_phrases (lower q) \<or> any_in worst_phrases (lower q)"
  shows "sort_by (sort_by_price (lower q) no_criteria) =
      Some (if any_in cheap_phrases (lower q) then price_asc else price_desc) \<and>
    sort_by (analyze_query_intent f q) =
      Some (if any_in best_phrases (lower q) then rating_desc else rating_asc)"
  using assms by (auto simp: analyze_query_intent_def Let_def sort_by_price_def sort_by_rating_def)

theorem rating_intent_overrides_price_intent_witness:
  "any_in cheap_phrases (lower ''Cheapest with BEST rating'') \<and>
   any_in best_phrases (lower ''Cheapest with BEST rating'') \<and>
   sort_by (sort_by_price (lower ''Cheapest with BEST rating'') (no_criteria :: nat criteria)) = Some price_asc \<and>
   sort_by (analyze_query_intent whole_part ''Cheapest with BEST rating'') = Some rating_desc"
proof -
  have c: "any_in cheap_phrases (lower ''Cheapest with BEST rating'')" by code_simp
  have b: "any_in best_phrases (lower ''Cheapest with BEST rating'')" by code_simp
  from rating_intent_overrides_price_intent[of "''Cheapest with BEST rating''" whole_part] c b
  show ?thesis by simp
qed

text \<open>
  Claim C10. The phrase tests are substring tests on the lower-cased query: every query
  that contains \<open>available\<close>, in any case and inside any word, gets \<open>available_only\<close>. The
  query \<open>unavailable\<close> is one word and gets it too.
\<close>

theorem available_substring_sets_available_only:
  assumes "sublist ''available'' q \<or> sublist ''available'' (lower q)"
  shows "any_in available_phrases (lower q) \<and> available_only (analyze_query_intent f q) = Some True"
proof -
  have "sublist ''available'' (lower q)"
  proof (cases "sublist ''available'' (lower q)")
    case True
    then show ?thesis .
  next
    case False
    then have "sublist ''available'' q" using assms by simp
    then have "sublist (map lower_char ''available'') (map lower_char q)"
      by (rule map_mono_sublist)
    then show ?thesis using lower_available by (simp only: lower_def)
  qed
  then have a: "any_in available_phrases (lower q)"
    by (simp add: any_in_def available_phrases_def)
  then show ?thesis
    by (simp add: analyze_query_intent_def Let_def availability_intent_def)
qed

theorem available_substring_sets_available_only_witness:
  "sublist ''available'' ''unavailable'' \<and> query_words ''unavailable'' = [''unavailable''] \<and>
   available_only (analyze_query_intent whole_part ''unavailable'') = Some True"
proof -
  have s: "sublist ''available'' ''unavailable''" by code_simp
  have w: "query_words ''unavailable'' = [''unavailable'']" by code_simp
  from available_substring_sets_available_only[of "''unavailable''" whole_part] s w
  show ?thesis by simp
qed

end
